theory Spec2Isabelle
  imports Main
begin

section \<open>Strings\<close>

text \<open>
  A JavaScript string is modelled as a \<open>string\<close>: the list of the bytes of its UTF-8
  encoding. Every character the program inspects is ASCII, so the models of its tests
  and replacements agree with the code on all of Unicode; the one place where a
  non-ASCII character matters (the regular expression dot does not match the line
  separators U+2028 and U+2029) is written out in \<open>has_line_terminator\<close>.
\<close>

definition startsWith :: "string \<Rightarrow> string \<Rightarrow> bool" where
  \<comment> \<open>\<^verbatim>\<open>s.startsWith(p)\<close>, and a regular expression \<^verbatim>\<open>/^p/\<close> for a literal \<open>p\<close>\<close>
  "startsWith s p = (take (length p) s = p)"

definition ascii_lower :: "char \<Rightarrow> char" where
  "ascii_lower c =
     (case map_of (zip ''ABCDEFGHIJKLMNOPQRSTUVWXYZ'' ''abcdefghijklmnopqrstuvwxyz'') c of
        None \<Rightarrow> c
      | Some l \<Rightarrow> l)"

definition startsWith_ci :: "string \<Rightarrow> string \<Rightarrow> bool" where
  \<comment> \<open>\<^verbatim>\<open>/^p/i\<close> for a lower-case ASCII literal \<open>p\<close>: without the \<^verbatim>\<open>u\<close> flag only the ASCII
      letters of the input fold onto the letters of \<open>p\<close>\<close>
  "startsWith_ci s p = (map ascii_lower (take (length p) s) = p)"

fun str_includes :: "string \<Rightarrow> string \<Rightarrow> bool" where
  \<comment> \<open>\<^verbatim>\<open>s.includes(f)\<close>\<close>
  "str_includes [] f = (f = [])"
| "str_includes (c # cs) f = (startsWith (c # cs) f \<or> str_includes cs f)"

definition replace_prefix :: "string \<Rightarrow> string \<Rightarrow> string \<Rightarrow> string" where
  \<comment> \<open>\<^verbatim>\<open>s.replace(/^p/, r)\<close> for a literal \<open>p\<close>\<close>
  "replace_prefix p r s = (if startsWith s p then r @ drop (length p) s else s)"

definition replace_prefix_ci :: "string \<Rightarrow> string \<Rightarrow> string \<Rightarrow> string" where
  \<comment> \<open>\<^verbatim>\<open>s.replace(/^p/i, r)\<close>\<close>
  "replace_prefix_ci p r s = (if startsWith_ci s p then r @ drop (length p) s else s)"

definition is_http :: "string \<Rightarrow> bool" where
  \<comment> \<open>\<^verbatim>\<open>/^https?:\/\//.test(s)\<close>\<close>
  "is_http s = (startsWith s ''http://'' \<or> startsWith s ''https://'')"

definition strip_http :: "string \<Rightarrow> string" where
  \<comment> \<open>\<^verbatim>\<open>s.replace(/^https?:\/\//, '')\<close>\<close>
  "strip_http s =
     (if startsWith s ''https://'' then drop 8 s
      else if startsWith s ''http://'' then drop 7 s
      else s)"

definition is_slash :: "char \<Rightarrow> bool" where
  "is_slash c = (c = CHR ''/'')"

definition is_sep :: "char \<Rightarrow> bool" where
  \<comment> \<open>the character class \<^verbatim>\<open>[/\\]\<close>: a slash or a backslash\<close>
  "is_sep c = (c = CHR ''/'' \<or> c = CHR 0x5C)"

definition strip_leading_slashes :: "string \<Rightarrow> string" where
  \<comment> \<open>\<^verbatim>\<open>s.replace(/^\/+/, '')\<close>\<close>
  "strip_leading_slashes s = dropWhile is_slash s"

fun has_line_terminator :: "string \<Rightarrow> bool" where
  \<comment> \<open>the characters the dot of a regular expression refuses: LF, CR, U+2028, U+2029\<close>
  "has_line_terminator [] = False"
| "has_line_terminator (c # cs) =
     (c = CHR 0x0A \<or> c = CHR 0x0D
      \<or> startsWith (c # cs) [CHR 0xE2, CHR 0x80, CHR 0xA8]
      \<or> startsWith (c # cs) [CHR 0xE2, CHR 0x80, CHR 0xA9]
      \<or> has_line_terminator cs)"

fun strip_query_fragment :: "string \<Rightarrow> string" where
  \<comment> \<open>\<^verbatim>\<open>s.replace(/[?#].*$/, '')\<close>: cut at the first \<^verbatim>\<open>?\<close> or \<^verbatim>\<open>#\<close> from which the dot
      reaches the end of the string\<close>
  "strip_query_fragment [] = []"
| "strip_query_fragment (c # cs) =
     (if (c = CHR ''?'' \<or> c = CHR ''#'') \<and> \<not> has_line_terminator cs then []
      else c # strip_query_fragment cs)"

fun split_on :: "(char \<Rightarrow> bool) \<Rightarrow> string \<Rightarrow> string list" where
  \<comment> \<open>\<^verbatim>\<open>s.split(re)\<close> for a one-character class: the empty string gives one empty piece\<close>
  "split_on P [] = [[]]"
| "split_on P (c # cs) =
     (if P c then [] # split_on P cs
      else (case split_on P cs of
              [] \<Rightarrow> [[c]]
            | w # ws \<Rightarrow> (c # w) # ws))"

fun join_with :: "string \<Rightarrow> string list \<Rightarrow> string" where
  \<comment> \<open>\<^verbatim>\<open>xs.join(sep)\<close>\<close>
  "join_with sep [] = []"
| "join_with sep [x] = x"
| "join_with sep (x # y # zs) = x @ sep @ join_with sep (y # zs)"


section \<open>The path module of Node.js (POSIX)\<close>

text \<open>
  \<^verbatim>\<open>path.sep\<close>, \<^verbatim>\<open>path.resolve\<close>, \<^verbatim>\<open>path.join\<close> and \<^verbatim>\<open>path.basename\<close> belong to the
  runtime, not to the repository. They are modelled after the POSIX implementation
  (\<^verbatim>\<open>lib/path.js\<close>): \<open>normalizeString\<close> is its segment loop, on the list of segments
  instead of character positions. The working directory (\<^verbatim>\<open>process.cwd()\<close>) is a
  parameter.
\<close>

definition path_sep :: string where
  "path_sep = ''/''"

fun normalizeString :: "bool \<Rightarrow> string list \<Rightarrow> string list \<Rightarrow> string list" where
  "normalizeString allowAboveRoot res [] = res"
| "normalizeString allowAboveRoot res (seg # segs) =
     (if seg = '''' \<or> seg = ''.'' then normalizeString allowAboveRoot res segs
      else if seg = ''..'' then
        (if res \<noteq> [] \<and> last res \<noteq> ''..''
           then normalizeString allowAboveRoot (butlast res) segs
         else if allowAboveRoot
           then normalizeString allowAboveRoot (res @ [''..'']) segs
         else normalizeString allowAboveRoot res segs)
      else normalizeString allowAboveRoot (res @ [seg]) segs)"

fun resolve_args :: "string list \<Rightarrow> string \<Rightarrow> bool \<Rightarrow> string \<times> bool" where
  \<comment> \<open>the loop of \<^verbatim>\<open>path.resolve\<close>: the arguments from the last to the first, then the
      working directory, until the path is absolute\<close>
  "resolve_args [] resolvedPath resolvedAbsolute = (resolvedPath, resolvedAbsolute)"
| "resolve_args (p # ps) resolvedPath resolvedAbsolute =
     (if resolvedAbsolute then (resolvedPath, resolvedAbsolute)
      else (case p of
              [] \<Rightarrow> resolve_args ps resolvedPath resolvedAbsolute
            | c # _ \<Rightarrow> resolve_args ps (p @ ''/'' @ resolvedPath) (c = CHR ''/'')))"

definition path_resolve :: "string \<Rightarrow> string list \<Rightarrow> string" where
  "path_resolve wd args =
     (case resolve_args (rev args @ [wd]) '''' False of
        (resolvedPath, resolvedAbsolute) \<Rightarrow>
          (let norm = join_with ''/''
                        (normalizeString (\<not> resolvedAbsolute) [] (split_on is_slash resolvedPath))
           in if resolvedAbsolute then ''/'' @ norm
              else if norm = '''' then ''.'' else norm))"

definition path_normalize :: "string \<Rightarrow> string" where
  "path_normalize p =
     (if p = '''' then ''.''
      else
        (let isAbsolute = (hd p = CHR ''/'');
             trailingSeparator = (last p = CHR ''/'');
             norm = join_with ''/'' (normalizeString (\<not> isAbsolute) [] (split_on is_slash p))
         in if norm = '''' then
              (if isAbsolute then ''/'' else if trailingSeparator then ''./'' else ''.'')
            else
              (let q = (if trailingSeparator then norm @ ''/'' else norm)
               in if isAbsolute then ''/'' @ q else q)))"

definition path_join :: "string list \<Rightarrow> string" where
  "path_join args =
     (let joined = join_with ''/'' (filter (\<lambda>a. a \<noteq> '''') args)
      in if joined = '''' then ''.'' else path_normalize joined)"

definition path_basename :: "string \<Rightarrow> string" where
  \<comment> \<open>trailing slashes are ignored: the basename of \<^verbatim>\<open>a/b/\<close> is \<^verbatim>\<open>b\<close>\<close>
  "path_basename p =
     rev (takeWhile (\<lambda>c. \<not> is_slash c) (dropWhile is_slash (rev p)))"


section \<open>Utility functions\<close>

definition PATH_FILTERS :: "string list" where
  "PATH_FILTERS = [''/src/'']"

definition OUTPUT_DIR :: string where
  "OUTPUT_DIR = ''out''"

definition matchesFilter :: "string list \<Rightarrow> string \<Rightarrow> bool" where
  \<comment> \<open>the source reads the constant \<open>PATH_FILTERS\<close>; here the list is an argument\<close>
  "matchesFilter filters filePath =
     (length filters = 0 \<or> list_ex (\<lambda>f. str_includes filePath f) filters)"

definition urlToFilesystemPath :: "string \<Rightarrow> string" where
  "urlToFilesystemPath u =
     (if u = '''' then ''anonymous.js''
      else
        (let r = strip_query_fragment
                   (strip_http
                     (replace_prefix_ci ''vm://'' ''vm/''
                       (replace_prefix ''file://'' ''file/''
                         (replace_prefix ''rollup://'' ''rollup/''
                           (replace_prefix ''webpack://'' ''webpack/'' u)))))
         in if r = '''' then ''anonymous.js'' else r))"

definition strip_protocols :: "string \<Rightarrow> string" where
  \<comment> \<open>\<open>normalizeSourceFilePath\<close> up to and including the removal of leading slashes\<close>
  "strip_protocols sourceFilePath =
     (let normalized = replace_prefix ''./'' ''''
                         (replace_prefix ''file://'' ''file/''
                           (replace_prefix ''rollup://'' ''rollup/''
                             (replace_prefix ''webpack://'' ''webpack/'' sourceFilePath)));
          normalized = (if is_http normalized then strip_http normalized else normalized)
      in strip_leading_slashes normalized)"

definition normalizeSourceFilePath :: "string \<Rightarrow> string" where
  "normalizeSourceFilePath sourceFilePath =
     (let normalized = strip_protocols sourceFilePath
      in if path_basename normalized = '''' then path_join [normalized, ''index.txt'']
         else normalized)"

fun sanitize_loop :: "string list \<Rightarrow> string list \<Rightarrow> string list" where
  \<comment> \<open>the \<^verbatim>\<open>for (const part of parts)\<close> loop of \<open>sanitizePath\<close>, on \<open>result\<close>\<close>
  "sanitize_loop result [] = result"
| "sanitize_loop result (part # parts) =
     (if part = ''..'' then
        (if result \<noteq> [] \<and> last result \<noteq> ''..''
           then sanitize_loop (butlast result) parts
         else sanitize_loop (result @ [''_up_'']) parts)
      else if part \<noteq> ''.'' \<and> part \<noteq> ''''
        then sanitize_loop (result @ [part]) parts
      else sanitize_loop result parts)"

definition sanitizePath :: "string \<Rightarrow> string" where
  "sanitizePath relPath =
     (if relPath = '''' then ''''
      else join_with path_sep
             (sanitize_loop [] (split_on is_sep (strip_leading_slashes relPath))))"

datatype error = PathEscapeError | TypeError | IOError

definition safePathJoin :: "string \<Rightarrow> string \<Rightarrow> string \<Rightarrow> error + string" where
  \<comment> \<open>\<open>wd\<close> is the working directory; \<open>Inl PathEscapeError\<close> is the thrown
      \<^verbatim>\<open>Error('Unsafe path: ...')\<close>\<close>
  "safePathJoin wd baseDir relPath =
     (let baseAbs = path_resolve wd [baseDir];
          sanitized = sanitizePath relPath;
          full = path_resolve wd [baseAbs, sanitized];
          baseNormalized = baseAbs @ path_sep;
          fullNormalized = full @ path_sep
      in if \<not> startsWith fullNormalized baseNormalized then Inl PathEscapeError
         else Inr full)"

definition clean_segment :: "string \<Rightarrow> bool" where
  \<comment> \<open>a path segment that names a file or directory: not empty, not a dot segment, free
      of separators\<close>
  "clean_segment s = (s \<noteq> '''' \<and> s \<noteq> ''.'' \<and> s \<noteq> ''..'' \<and> \<not> list_ex is_sep s)"



section \<open>Sourcemap resolution\<close>

definition looks_absolute :: "string \<Rightarrow> bool" where
  \<comment> \<open>\<^verbatim>\<open>/^https?:|^data:|^file:|^webpack:\/\//i.test(mapRef)\<close>\<close>
  "looks_absolute mapRef =
     (startsWith_ci mapRef ''http:'' \<or> startsWith_ci mapRef ''https:''
      \<or> startsWith_ci mapRef ''data:'' \<or> startsWith_ci mapRef ''file:''
      \<or> startsWith_ci mapRef ''webpack://'')"

definition resolveSourceMapUrl ::
  "(string \<Rightarrow> string \<Rightarrow> string option) \<Rightarrow> string \<Rightarrow> string \<Rightarrow> string option" where
  \<comment> \<open>\<open>new_URL rel base\<close> is \<^verbatim>\<open>new URL(rel, base).toString()\<close> of the runtime, \<open>None\<close> when
      the constructor throws; the result \<open>None\<close> is the returned \<^verbatim>\<open>null\<close>\<close>
  "resolveSourceMapUrl new_URL mapRef scriptUrl =
     (if looks_absolute mapRef then Some mapRef
      else if startsWith scriptUrl ''http'' then new_URL mapRef scriptUrl
      else Some mapRef)"


section \<open>Extraction of the original sources\<close>

text \<open>
  A parsed sourcemap is a JSON value. Numbers are kept as integers: the code only tests
  them for truth.
\<close>

datatype json =
  JNull | JBool bool | JNum int | JStr string | JArr "json list" | JObj "(string \<times> json) list"

text \<open>
  The number of turns of a loop \<^verbatim>\<open>for (let i = 0; i < v.length; i++)\<close>: finite, or without
  end when \<^verbatim>\<open>v.length\<close> is beyond \<^verbatim>\<open>2 ** 53\<close>, where \<^verbatim>\<open>i++\<close> no longer changes \<^verbatim>\<open>i\<close>.
\<close>

datatype turns = Turns nat | Endless

text \<open>
  The collaborators of the extraction, as parameters. Each failure (a rejected promise, a
  thrown exception) is \<open>None\<close> or \<open>False\<close>.
  \<^item> \<open>fetchUrl log u\<close>: the body that \<^verbatim>\<open>fetchUrl(u)\<close> resolves to, after the requests \<open>log\<close>;
  \<^item> \<open>JSON_parse\<close>: \<^verbatim>\<open>JSON.parse\<close>;
  \<^item> \<open>URL_parse s\<close>: the serialisation of \<^verbatim>\<open>new URL(s)\<close>;
  \<^item> \<open>URL_resolve rel base\<close>: \<^verbatim>\<open>new URL(rel, base).toString()\<close>;
  \<^item> \<open>String_of v\<close>: \<^verbatim>\<open>String(v)\<close> for a value that is not a string;
  \<^item> \<open>length_of v\<close>: the turns that \<^verbatim>\<open>v.length\<close> gives the loop, for a string or an object
    \<open>v\<close> (the code units of a string; the \<^verbatim>\<open>length\<close> property of an object, as a number);
  \<^item> \<open>element_of v k\<close>: what \<^verbatim>\<open>v[i]\<close> is in turn \<open>k\<close> of that loop, for a string or an
    object \<open>v\<close>;
  \<^item> \<open>writeFile ws dest content\<close>: whether \<^verbatim>\<open>ensureDir(path.dirname(dest))\<close> and
    \<^verbatim>\<open>fs.writeFileSync(dest, content)\<close> succeed after the writes \<open>ws\<close>;
  \<^item> \<open>cwd\<close>: \<^verbatim>\<open>process.cwd()\<close>.
\<close>

record env =
  fetchUrl :: "string list \<Rightarrow> string \<Rightarrow> string option"
  JSON_parse :: "string \<Rightarrow> json option"
  URL_parse :: "string \<Rightarrow> string option"
  URL_resolve :: "string \<Rightarrow> string \<Rightarrow> string option"
  String_of :: "json \<Rightarrow> string option"
  length_of :: "json \<Rightarrow> turns"
  element_of :: "json \<Rightarrow> nat \<Rightarrow> json option"
  writeFile :: "(string \<times> string) list \<Rightarrow> string \<Rightarrow> string \<Rightarrow> bool"
  cwd :: string

record script =
  scriptId :: string
  url :: string
  sourceMapURL :: string

text \<open>
  The state of a run: the counters of \<open>extractOriginalSources\<close> (the three \<open>skipped\<close>
  counters exist in the variant with several target URLs only), the URLs handed to the
  fetcher and the files written, both in order.
\<close>

record harvest =
  savedCount :: nat
  skippedNoMapRef :: nat
  skippedFetchFailed :: nat
  skippedInvalid :: nat
  fetched :: "string list"
  written :: "(string \<times> string) list"

definition harvest0 :: harvest where
  "harvest0 = \<lparr>savedCount = 0, skippedNoMapRef = 0, skippedFetchFailed = 0,
                skippedInvalid = 0, fetched = [], written = []\<rparr>"

fun truthy :: "json option \<Rightarrow> bool" where
  \<comment> \<open>\<open>None\<close> is \<^verbatim>\<open>undefined\<close>\<close>
  "truthy None = False"
| "truthy (Some JNull) = False"
| "truthy (Some (JBool b)) = b"
| "truthy (Some (JNum n)) = (n \<noteq> 0)"
| "truthy (Some (JStr s)) = (s \<noteq> '''')"
| "truthy (Some (JArr xs)) = True"
| "truthy (Some (JObj kvs)) = True"

fun get_member :: "json \<Rightarrow> string \<Rightarrow> error + json option" where
  \<comment> \<open>\<^verbatim>\<open>v.name\<close> for a name that no prototype defines: reading a property of
      \<^verbatim>\<open>null\<close> throws; of two equal keys \<^verbatim>\<open>JSON.parse\<close> keeps the later\<close>
  "get_member JNull name = Inl TypeError"
| "get_member (JObj kvs) name = Inr (map_of (rev kvs) name)"
| "get_member v name = Inr None"

definition or_else :: "json option \<Rightarrow> json \<Rightarrow> json" where
  \<comment> \<open>\<^verbatim>\<open>v || d\<close>\<close>
  "or_else v d = (case v of Some x \<Rightarrow> (if truthy v then x else d) | None \<Rightarrow> d)"

definition js_index :: "json list \<Rightarrow> nat \<Rightarrow> json option" where
  \<comment> \<open>\<^verbatim>\<open>xs[i]\<close> for an array: \<^verbatim>\<open>undefined\<close> beyond the length\<close>
  "js_index xs i = (if i < length xs then Some (xs ! i) else None)"

fun js_length :: "env \<Rightarrow> json \<Rightarrow> error + turns" where
  \<comment> \<open>the turns that \<^verbatim>\<open>i < v.length\<close> allows: a number or a boolean has no length, and
      \<^verbatim>\<open>i < undefined\<close> is false\<close>
  "js_length e JNull = Inl TypeError"
| "js_length e (JArr xs) = Inr (Turns (length xs))"
| "js_length e (JBool b) = Inr (Turns 0)"
| "js_length e (JNum n) = Inr (Turns 0)"
| "js_length e (JStr s) = Inr (length_of e (JStr s))"
| "js_length e (JObj kvs) = Inr (length_of e (JObj kvs))"

fun js_at :: "env \<Rightarrow> json \<Rightarrow> nat \<Rightarrow> error + json option" where
  \<comment> \<open>\<^verbatim>\<open>v[i]\<close> in turn \<open>i\<close> of the loop\<close>
  "js_at e JNull i = Inl TypeError"
| "js_at e (JArr xs) i = Inr (js_index xs i)"
| "js_at e (JBool b) i = Inr None"
| "js_at e (JNum n) i = Inr None"
| "js_at e (JStr s) i = Inr (element_of e (JStr s) i)"
| "js_at e (JObj kvs) i = Inr (element_of e (JObj kvs) i)"

fun more_turns :: "turns \<Rightarrow> nat \<Rightarrow> bool" where
  "more_turns (Turns n) i = (i < n)"
| "more_turns Endless i = True"

definition js_String :: "env \<Rightarrow> json \<Rightarrow> string option" where
  "js_String e v = (case v of JStr s \<Rightarrow> Some s | _ \<Rightarrow> String_of e v)"

definition fetchContent ::
  "env \<Rightarrow> string option \<Rightarrow> json \<Rightarrow> string list \<Rightarrow> string option \<times> string list" where
  \<comment> \<open>the branch \<^verbatim>\<open>else if (sourceMapBaseUrl) { try { ... } catch (e) { } }\<close>: the content
      fetched, if any, and the log of requests\<close>
  "fetchContent e sourceMapBaseUrl sourceFilePath log =
     (case sourceMapBaseUrl of
        None \<Rightarrow> (None, log)
      | Some base \<Rightarrow>
          (case js_String e sourceFilePath of
             None \<Rightarrow> (None, log)
           | Some rel \<Rightarrow>
               (case URL_resolve e rel base of
                  None \<Rightarrow> (None, log)
                | Some absoluteUrl \<Rightarrow> (fetchUrl e log absoluteUrl, log @ [absoluteUrl]))))"

fun selectContent ::
  "env \<Rightarrow> string option \<Rightarrow> json \<Rightarrow> json option \<Rightarrow> string list
     \<Rightarrow> error + (string option \<times> string list)" where
  \<comment> \<open>\<open>fileContent\<close> after the \<^verbatim>\<open>if (sourcesContent[i] != null) ... else if ...\<close>\<close>
  "selectContent e base sourceFilePath None log = Inr (fetchContent e base sourceFilePath log)"
| "selectContent e base sourceFilePath (Some JNull) log =
     Inr (fetchContent e base sourceFilePath log)"
| "selectContent e base sourceFilePath (Some v) log =
     (case js_String e v of
        None \<Rightarrow> Inl TypeError
      | Some text \<Rightarrow> Inr (Some text, log))"

definition passesFilter :: "string list \<Rightarrow> string \<Rightarrow> bool" where
  \<comment> \<open>the negation of the test before \<^verbatim>\<open>continue\<close>\<close>
  "passesFilter filters normalizedPath =
     (\<not> (\<not> matchesFilter filters normalizedPath
          \<and> \<not> matchesFilter filters (''/'' @ normalizedPath)))"

definition saveSource ::
  "env \<Rightarrow> string list \<Rightarrow> json \<Rightarrow> string \<Rightarrow> harvest \<Rightarrow> error + harvest" where
  \<comment> \<open>the body of the loop after \<^verbatim>\<open>if (!fileContent) continue\<close>;
      \<open>normalizeSourceFilePath\<close> calls \<^verbatim>\<open>replace\<close>, which only a string has\<close>
  "saveSource e filters sourceFilePath fileContent st =
     (case sourceFilePath of
        JStr p \<Rightarrow>
          (let normalizedPath = normalizeSourceFilePath p
           in if \<not> passesFilter filters normalizedPath then Inr st
              else (case safePathJoin (cwd e) OUTPUT_DIR normalizedPath of
                      Inl err \<Rightarrow> Inl err
                    | Inr destPath \<Rightarrow>
                        if writeFile e (written st) destPath fileContent
                        then Inr (st\<lparr>written := written st @ [(destPath, fileContent)],
                                     savedCount := savedCount st + 1\<rparr>)
                        else Inl IOError))
      | _ \<Rightarrow> Inl TypeError)"

definition processSource ::
  "env \<Rightarrow> string list \<Rightarrow> string option \<Rightarrow> json option \<Rightarrow> json option \<Rightarrow> harvest
     \<Rightarrow> error + harvest" where
  \<comment> \<open>one turn of the loop over \<open>sources\<close>, for \<open>source = sources[i]\<close> and
      \<open>content = sourcesContent[i]\<close>\<close>
  "processSource e filters base source content st =
     (let sourceFilePath = or_else source (JStr '''')
      in case selectContent e base sourceFilePath content (fetched st) of
           Inl err \<Rightarrow> Inl err
         | Inr (fileContent, log) \<Rightarrow>
             (case fileContent of
                None \<Rightarrow> Inr (st\<lparr>fetched := log\<rparr>)
              | Some c \<Rightarrow> saveSource e filters sourceFilePath c (st\<lparr>fetched := log\<rparr>)))"

text \<open>
  The loop over \<open>sources\<close> need not end (\<open>turns\<close> may be \<open>Endless\<close>): \<open>None\<close> is the run that
  never returns, \<open>Some (Inl err)\<close> the one that throws, \<open>Some (Inr st)\<close> the one that
  completes.
\<close>

partial_function (option) sourcesLoop ::
  "env \<Rightarrow> string list \<Rightarrow> string option \<Rightarrow> turns \<Rightarrow> json \<Rightarrow> json \<Rightarrow> nat \<Rightarrow> harvest
     \<Rightarrow> (error + harvest) option" where
  "sourcesLoop e filters base turns sources sourcesContent i st =
     (if more_turns turns i then
        (case js_at e sources i of
           Inl err \<Rightarrow> Some (Inl err)
         | Inr source \<Rightarrow>
             (case js_at e sourcesContent i of
                Inl err \<Rightarrow> Some (Inl err)
              | Inr content \<Rightarrow>
                  (case processSource e filters base source content st of
                     Inl err \<Rightarrow> Some (Inl err)
                   | Inr st' \<Rightarrow>
                       sourcesLoop e filters base turns sources sourcesContent (Suc i) st')))
      else Some (Inr st))"

declare sourcesLoop.simps [code]

definition processSourceMap ::
  "env \<Rightarrow> string list \<Rightarrow> string \<Rightarrow> json \<Rightarrow> harvest \<Rightarrow> (error + harvest) option" where
  \<comment> \<open>from \<^verbatim>\<open>let sourceMapBaseUrl = null\<close> to the end of the loop over \<open>sources\<close>\<close>
  "processSourceMap e filters sourceMapUrl sourceMap st =
     (let sourceMapBaseUrl = URL_parse e sourceMapUrl
      in case get_member sourceMap ''sources'' of
           Inl err \<Rightarrow> Some (Inl err)
         | Inr srcs \<Rightarrow>
             (case get_member sourceMap ''sourcesContent'' of
                Inl err \<Rightarrow> Some (Inl err)
              | Inr conts \<Rightarrow>
                  (let sources = or_else srcs (JArr []);
                       sourcesContent = or_else conts (JArr [])
                   in case js_length e sources of
                        Inl err \<Rightarrow> Some (Inl err)
                      | Inr turns \<Rightarrow>
                          sourcesLoop e filters sourceMapBaseUrl turns sources sourcesContent
                            0 st)))"

definition processScript ::
  "env \<Rightarrow> string list \<Rightarrow> script \<Rightarrow> harvest \<Rightarrow> (error + harvest) option" where
  \<comment> \<open>one turn of the loop over \<open>scripts\<close>\<close>
  "processScript e filters metadata st =
     (let scriptUrl = url metadata;
          sourceMapReference = sourceMapURL metadata
      in if sourceMapReference = ''''
         then Some (Inr (st\<lparr>skippedNoMapRef := skippedNoMapRef st + 1\<rparr>))
         else
           (case resolveSourceMapUrl (URL_resolve e) sourceMapReference scriptUrl of
              None \<Rightarrow> Some (Inr (st\<lparr>skippedFetchFailed := skippedFetchFailed st + 1\<rparr>))
            | Some sourceMapUrl \<Rightarrow>
                if sourceMapUrl = ''''
                then Some (Inr (st\<lparr>skippedFetchFailed := skippedFetchFailed st + 1\<rparr>))
                else
                  (case fetchUrl e (fetched st) sourceMapUrl of
                     None \<Rightarrow>
                       Some (Inr (st\<lparr>fetched := fetched st @ [sourceMapUrl],
                                     skippedFetchFailed := skippedFetchFailed st + 1\<rparr>))
                   | Some sourceMapBuffer \<Rightarrow>
                       (case JSON_parse e sourceMapBuffer of
                          None \<Rightarrow>
                            Some (Inr (st\<lparr>fetched := fetched st @ [sourceMapUrl],
                                          skippedInvalid := skippedInvalid st + 1\<rparr>))
                        | Some sourceMap \<Rightarrow>
                            processSourceMap e filters sourceMapUrl sourceMap
                              (st\<lparr>fetched := fetched st @ [sourceMapUrl]\<rparr>)))))"

fun scriptsLoop ::
  "env \<Rightarrow> string list \<Rightarrow> script list \<Rightarrow> harvest \<Rightarrow> (error + harvest) option" where
  "scriptsLoop e filters [] st = Some (Inr st)"
| "scriptsLoop e filters (metadata # scripts) st =
     (case processScript e filters metadata st of
        None \<Rightarrow> None
      | Some (Inl err) \<Rightarrow> Some (Inl err)
      | Some (Inr st') \<Rightarrow> scriptsLoop e filters scripts st')"

definition extractOriginalSources ::
  "env \<Rightarrow> string list \<Rightarrow> script list \<Rightarrow> (error + nat) option" where
  \<comment> \<open>\<open>None\<close>: the promise is never settled; \<open>Some (Inl err)\<close>: it is rejected;
      \<open>Some (Inr n)\<close>: it resolves to the count \<open>n\<close>\<close>
  "extractOriginalSources e filters scripts =
     (case scriptsLoop e filters scripts harvest0 of
        None \<Rightarrow> None
      | Some (Inl err) \<Rightarrow> Some (Inl err)
      | Some (Inr st) \<Rightarrow> Some (Inr (savedCount st)))"


section \<open>Notions of the specification\<close>

definition already_normalized :: "string \<Rightarrow> bool" where
  \<comment> \<open>no residual protocol prefix, no leading \<^verbatim>\<open>./\<close>, no leading slash\<close>
  "already_normalized p =
     (\<not> startsWith p ''webpack://'' \<and> \<not> startsWith p ''rollup://''
      \<and> \<not> startsWith p ''file://'' \<and> \<not> startsWith p ''./''
      \<and> \<not> is_http p \<and> \<not> startsWith p ''/'')"

definition resolve_spec ::
  "(string \<Rightarrow> string \<Rightarrow> string option) \<Rightarrow> string \<Rightarrow> string \<Rightarrow> string option" where
  \<comment> \<open>the resolver as the specification words it: the reference is resolved exactly when
      the script URL is an HTTP(S) URL\<close>
  "resolve_spec new_URL mapRef scriptUrl =
     (if looks_absolute mapRef then Some mapRef
      else if is_http scriptUrl then new_URL mapRef scriptUrl
      else Some mapRef)"








section \<open>A sample run\<close>

text \<open>
  The environment of the end-to-end scenario: a sourcemap at
  \<^verbatim>\<open>https://cdn.test/app.js.map\<close> and a source file at \<^verbatim>\<open>https://cdn.test/b.js\<close> with the
  body \<^verbatim>\<open>content-B\<close>. The server answers the request for the sourcemap with the
  JSON document \<^verbatim>\<open>null\<close>. Every other request, and every URL resolution but that of
  \<^verbatim>\<open>b.js\<close> against the sourcemap, fails; a \<^verbatim>\<open>data:\<close> URL parses, and nothing resolves
  against it. The indexing of strings and objects is the runtime's on ASCII strings and
  on objects whose \<^verbatim>\<open>length\<close> is an integer, a boolean, \<^verbatim>\<open>null\<close> or absent.
\<close>

function decimal :: "nat \<Rightarrow> string" where
  \<comment> \<open>\<^verbatim>\<open>String(i)\<close> for an index\<close>
  "decimal n =
     (if n < 10 then [''0123456789'' ! n]
      else decimal (n div 10) @ [''0123456789'' ! (n mod 10)])"
  by pat_completeness auto
termination
  by (relation "measure (\<lambda>n. n)") auto

definition ascii_length_of :: "json \<Rightarrow> turns" where
  "ascii_length_of v =
     (case v of
        JStr s \<Rightarrow> Turns (length s)
      | JObj kvs \<Rightarrow>
          (case map_of (rev kvs) ''length'' of
             Some (JNum n) \<Rightarrow>
               (if n \<le> 0 then Turns 0
                else if n \<le> 9007199254740992 then Turns (nat n)
                else Endless)
           | Some (JBool b) \<Rightarrow> Turns (if b then 1 else 0)
           | _ \<Rightarrow> Turns 0)
      | _ \<Rightarrow> Turns 0)"

definition ascii_element_of :: "json \<Rightarrow> nat \<Rightarrow> json option" where
  "ascii_element_of v k =
     (case v of
        JStr s \<Rightarrow> (if k < length s then Some (JStr [s ! k]) else None)
      | JObj kvs \<Rightarrow>
          map_of (rev kvs)
            (decimal (if int k \<le> 9007199254740992 then k else nat 9007199254740992))
      | _ \<Rightarrow> None)"

definition cdn_env :: env where
  "cdn_env =
     \<lparr>fetchUrl = (\<lambda>log u. if u = ''https://cdn.test/app.js.map'' then Some ''null''
                           else if u = ''https://cdn.test/b.js'' then Some ''content-B''
                           else None),
      JSON_parse = (\<lambda>s. if s = ''null'' then Some JNull else None),
      URL_parse = (\<lambda>s. if is_http s \<or> startsWith s ''data:'' then Some s else None),
      URL_resolve = (\<lambda>rel base. if base = ''https://cdn.test/app.js.map'' \<and> rel = ''b.js''
                                  then Some ''https://cdn.test/b.js'' else None),
      String_of = (\<lambda>v. None),
      length_of = ascii_length_of,
      element_of = ascii_element_of,
      writeFile = (\<lambda>ws dest content. True),
      cwd = ''/home/user''\<rparr>"

definition app_script :: script where
  "app_script = \<lparr>scriptId = ''7'', url = ''https://cdn.test/app.js'',
                  sourceMapURL = ''https://cdn.test/app.js.map''\<rparr>"

definition scenario_map :: json where
  \<comment> \<open>the sourcemap of the scenario, parsed\<close>
  "scenario_map =
     JObj [(''version'', JNum 3),
           (''sources'', JArr [JStr ''../shared/a.js'', JStr ''b.js'']),
           (''sourcesContent'', JArr [JStr ''content-A'', JNull])]"



section \<open>Evaluation of the definitions\<close>

lemmas str_defs = startsWith_def startsWith_ci_def ascii_lower_def replace_prefix_def
  replace_prefix_ci_def is_http_def strip_http_def is_slash_def is_sep_def
  strip_leading_slashes_def path_sep_def


section \<open>Prefixes, splitting and joining\<close>

lemma startsWith_iff: "startsWith s p = (\<exists>b. s = p @ b)"
proof
  assume "startsWith s p"
  then have "s = p @ drop (length p) s"
    by (metis append_take_drop_id startsWith_def)
  then show "\<exists>b. s = p @ b" ..
next
  assume "\<exists>b. s = p @ b"
  then show "startsWith s p" by (auto simp: startsWith_def)
qed

lemma startsWith_length:
  assumes "startsWith s p"
  shows "length p \<le> length s"
proof -
  from assms have "length (take (length p) s) = length p" by (simp add: startsWith_def)
  then show ?thesis by simp
qed


lemma str_includes_iff: "str_includes s f = (\<exists>a b. s = a @ f @ b)"
proof (induction s)
  case Nil
  then show ?case by simp
next
  case (Cons c cs)
  show ?case
  proof
    assume "str_includes (c # cs) f"
    then consider "startsWith (c # cs) f" | "str_includes cs f" by auto
    then show "\<exists>a b. c # cs = a @ f @ b"
    proof cases
      case 1
      then obtain b where "c # cs = f @ b" by (auto simp: startsWith_iff)
      then have "c # cs = [] @ f @ b" by simp
      then show ?thesis by blast
    next
      case 2
      with Cons.IH obtain a b where "cs = a @ f @ b" by blast
      then have "c # cs = (c # a) @ f @ b" by simp
      then show ?thesis by blast
    qed
  next
    assume "\<exists>a b. c # cs = a @ f @ b"
    then obtain a b where ab: "c # cs = a @ f @ b" by blast
    show "str_includes (c # cs) f"
    proof (cases a)
      case Nil
      with ab have "startsWith (c # cs) f" by (auto simp: startsWith_iff)
      then show ?thesis by simp
    next
      case (Cons x a')
      with ab have "cs = a' @ f @ b" by simp
      with Cons.IH have "str_includes cs f" by blast
      then show ?thesis by simp
    qed
  qed
qed

lemma split_on_not_Nil: "split_on P s \<noteq> []"
  by (induction s) (auto split: list.splits)

lemma split_on_no_sep: "seg \<in> set (split_on P s) \<Longrightarrow> c \<in> set seg \<Longrightarrow> \<not> P c"
proof (induction s arbitrary: seg)
  case Nil
  then show ?case by simp
next
  case (Cons a s)
  show ?case
  proof (cases "P a")
    case True
    with Cons show ?thesis by auto
  next
    case False
    obtain w ws where sp: "split_on P s = w # ws"
      using split_on_not_Nil [of P s] by (cases "split_on P s") auto
    with False Cons.prems have "seg = a # w \<or> seg \<in> set ws" by simp
    then show ?thesis
    proof
      assume "seg = a # w"
      with Cons.prems(2) have "c = a \<or> c \<in> set w" by auto
      with False Cons.IH [of w] sp show ?thesis by auto
    next
      assume "seg \<in> set ws"
      with Cons.IH [of seg] sp Cons.prems(2) show ?thesis by simp
    qed
  qed
qed

lemma split_on_plain: "\<forall>c\<in>set s. \<not> P c \<Longrightarrow> split_on P s = [s]"
  by (induction s) auto

lemma split_on_append_sep:
  "\<forall>c\<in>set s. \<not> P c \<Longrightarrow> P d \<Longrightarrow> split_on P (s @ d # t) = s # split_on P t"
  by (induction s) auto

lemma split_on_join:
  "segs \<noteq> [] \<Longrightarrow> \<forall>s\<in>set segs. \<forall>c\<in>set s. \<not> P c \<Longrightarrow> P d
     \<Longrightarrow> split_on P (join_with [d] segs) = segs"
proof (induction segs)
  case Nil
  then show ?case by simp
next
  case (Cons x rest)
  show ?case
  proof (cases rest)
    case Nil
    with Cons.prems show ?thesis by (simp add: split_on_plain)
  next
    case (Cons y zs)
    have "split_on P (join_with [d] rest) = rest"
      using Cons.IH Cons.prems Cons by simp
    moreover have "join_with [d] (x # rest) = x @ d # join_with [d] rest"
      using Cons by simp
    moreover have "\<forall>c\<in>set x. \<not> P c" using Cons.prems by simp
    ultimately show ?thesis
      using Cons.prems(3) by (simp only: split_on_append_sep)
  qed
qed



lemma join_with_Nil_iff:
  "\<forall>s\<in>set segs. s \<noteq> [] \<Longrightarrow> (join_with sep segs = []) = (segs = [])"
  by (induction sep segs rule: join_with.induct) auto

lemma join_with_hd:
  "segs \<noteq> [] \<Longrightarrow> hd segs \<noteq> [] \<Longrightarrow> hd (join_with sep segs) = hd (hd segs)"
  by (induction sep segs rule: join_with.induct) auto



section \<open>The path sanitizer\<close>

lemma sanitize_loop_clean:
  "\<forall>s\<in>set acc. clean_segment s \<Longrightarrow> \<forall>p\<in>set parts. \<not> list_ex is_sep p
     \<Longrightarrow> \<forall>s\<in>set (sanitize_loop acc parts). clean_segment s"
proof (induction parts arbitrary: acc)
  case Nil
  then show ?case by simp
next
  case (Cons part parts)
  have rest: "\<forall>p\<in>set parts. \<not> list_ex is_sep p"
    using Cons.prems(2) by simp
  have step: "\<forall>s\<in>set (sanitize_loop acc' parts). clean_segment s"
    if "\<forall>s\<in>set acc'. clean_segment s" for acc'
    using Cons.IH [OF that rest] .
  have up: "\<forall>s\<in>set (acc @ [''_up_'']). clean_segment s"
    using Cons.prems(1) by (simp add: clean_segment_def is_sep_def)
  have bl: "\<forall>s\<in>set (butlast acc). clean_segment s"
    using Cons.prems(1) by (meson in_set_butlastD)
  have psh: "\<forall>s\<in>set (acc @ [part]). clean_segment s"
    if "part \<noteq> ''..''" "part \<noteq> ''.''" "part \<noteq> []"
    using Cons.prems that by (simp add: clean_segment_def)
  show ?case
  proof (cases "part = ''..''")
    case True
    then show ?thesis using step [OF up] step [OF bl] by simp
  next
    case False
    then show ?thesis using step [OF psh] step [OF Cons.prems(1)] by simp
  qed
qed

lemma sanitize_loop_fixed:
  "\<forall>s\<in>set segs. clean_segment s \<Longrightarrow> sanitize_loop acc segs = acc @ segs"
  by (induction segs arbitrary: acc) (auto simp: clean_segment_def)

lemma sanitizePath_segments:
  "\<exists>segs. sanitizePath p = join_with ''/'' segs \<and> (\<forall>s\<in>set segs. clean_segment s)"
proof (cases "p = []")
  case True
  then have "sanitizePath p = join_with ''/'' []" by (simp add: sanitizePath_def)
  moreover have "\<forall>s\<in>set ([] :: string list). clean_segment s" by simp
  ultimately show ?thesis by blast
next
  case False
  let ?R = "sanitize_loop [] (split_on is_sep (strip_leading_slashes p))"
  have "\<forall>q\<in>set (split_on is_sep (strip_leading_slashes p)). \<not> list_ex is_sep q"
    using split_on_no_sep by (fastforce simp: list_ex_iff)
  then have "\<forall>s\<in>set ?R. clean_segment s"
    using sanitize_loop_clean [of "[]"] by simp
  moreover have "sanitizePath p = join_with ''/'' ?R"
    using False by (simp add: sanitizePath_def path_sep_def)
  ultimately show ?thesis by blast
qed

lemma sanitizePath_join_clean:
  assumes "\<forall>s\<in>set segs. clean_segment s"
  shows "sanitizePath (join_with ''/'' segs) = join_with ''/'' segs"
proof (cases "segs = []")
  case True
  then show ?thesis by (simp add: sanitizePath_def)
next
  case False
  let ?j = "join_with ''/'' segs"
  have ne: "\<forall>s\<in>set segs. s \<noteq> []" using assms by (auto simp: clean_segment_def)
  then have jne: "?j \<noteq> []" using False by (simp add: join_with_Nil_iff)
  have "hd segs \<in> set segs" using False by simp
  then have c: "clean_segment (hd segs)" using assms by blast
  then have h0: "hd segs \<noteq> []" by (simp add: clean_segment_def)
  then have "hd (hd segs) \<in> set (hd segs)" by simp
  then have h: "hd segs \<noteq> [] \<and> \<not> is_sep (hd (hd segs))"
    using c h0 by (auto simp: clean_segment_def list_ex_iff)
  then have "hd ?j = hd (hd segs)" using False by (simp add: join_with_hd)
  then have "\<not> is_slash (hd ?j)" using h by (simp add: is_slash_def is_sep_def)
  then have strip: "strip_leading_slashes ?j = ?j"
    using jne by (cases ?j) (auto simp: strip_leading_slashes_def)
  have nosep: "\<forall>s\<in>set segs. \<forall>c\<in>set s. \<not> is_sep c"
    using assms by (auto simp: clean_segment_def list_ex_iff)
  have "is_sep (CHR ''/'')" by (simp add: is_sep_def)
  from split_on_join [OF False nosep this] have "split_on is_sep ?j = segs" .
  then show ?thesis
    using jne strip assms by (simp add: sanitizePath_def path_sep_def sanitize_loop_fixed)
qed

text \<open>
  Claim C10. For every string \<open>p\<close>, the segments of \<open>sanitizePath p\<close> (its pieces between
  slashes and backslashes; the empty path has none) are never \<^verbatim>\<open>..\<close>, \<^verbatim>\<open>.\<close> or empty,
  and sanitizing a second time changes nothing.
\<close>

theorem sanitizePath_idempotent:
  "(sanitizePath p \<noteq> '''' \<longrightarrow>
      (\<forall>seg\<in>set (split_on is_sep (sanitizePath p)).
          seg \<noteq> ''..'' \<and> seg \<noteq> ''.'' \<and> seg \<noteq> ''''))
   \<and> sanitizePath (sanitizePath p) = sanitizePath p"
proof -
  obtain segs where j: "sanitizePath p = join_with ''/'' segs"
    and cl: "\<forall>s\<in>set segs. clean_segment s"
    using sanitizePath_segments by blast
  have idem: "sanitizePath (sanitizePath p) = sanitizePath p"
    using j cl by (simp add: sanitizePath_join_clean)
  have "\<forall>seg\<in>set (split_on is_sep (sanitizePath p)). seg \<noteq> ''..'' \<and> seg \<noteq> ''.'' \<and> seg \<noteq> ''''"
    if "sanitizePath p \<noteq> ''''"
  proof -
    from that j have ne: "segs \<noteq> []" by auto
    have nosep: "\<forall>s\<in>set segs. \<forall>c\<in>set s. \<not> is_sep c"
      using cl by (auto simp: clean_segment_def list_ex_iff)
    have "is_sep (CHR ''/'')" by (simp add: is_sep_def)
    from split_on_join [OF ne nosep this] have "split_on is_sep (sanitizePath p) = segs"
      by (simp only: j)
    then show ?thesis using cl by (auto simp: clean_segment_def)
  qed
  with idem show ?thesis by blast
qed

theorem sanitizePath_idempotent_witness:
  "sanitizePath ''a/../../b/./c//d'' = ''_up_/b/c/d''
   \<and> split_on is_sep (sanitizePath ''a/../../b/./c//d'') = [''_up_'', ''b'', ''c'', ''d'']
   \<and> sanitizePath (sanitizePath ''a/../../b/./c//d'') = sanitizePath ''a/../../b/./c//d''"
  using sanitizePath_idempotent [of "''a/../../b/./c//d''"]
  by (simp add: sanitizePath_def str_defs)

text \<open>
  Claim C3. The loop of \<open>sanitizePath\<close> compares the last accumulated segment with \<^verbatim>\<open>..\<close>,
  which it never stores, and not with the marker \<^verbatim>\<open>_up_\<close>: the second of two leading
  \<^verbatim>\<open>..\<close> segments pops the marker that the first one pushed. The path
  \<^verbatim>\<open>../../../etc/passwd\<close> is sanitized to \<^verbatim>\<open>_up_/etc/passwd\<close>, with one marker and not
  three.
\<close>

theorem sanitizePath_etc_passwd:
  "sanitizePath ''../../../etc/passwd'' = ''_up_/etc/passwd''"
  by (simp add: sanitizePath_def str_defs)


section \<open>The safe join\<close>















section \<open>The path normalizers\<close>

text \<open>
  Claim C7. \<open>urlToFilesystemPath\<close> replaces the prefix \<^verbatim>\<open>webpack://\<close> by \<^verbatim>\<open>webpack/\<close> and keeps
  what follows: for \<^verbatim>\<open>webpack://./src/index.js\<close> it returns \<^verbatim>\<open>webpack/./src/index.js\<close>, with
  the dot segment, and not \<^verbatim>\<open>webpack/src/index.js\<close>.
\<close>

theorem urlToFilesystemPath_webpack_example:
  "urlToFilesystemPath ''webpack://./src/index.js'' = ''webpack/./src/index.js''"
  by (simp add: urlToFilesystemPath_def str_defs)

text \<open>
  Claim C8. \<^verbatim>\<open>path.basename\<close> ignores trailing slashes, so a stripped path that ends in a
  slash has a basename and \<open>normalizeSourceFilePath\<close> returns it as it is:
  \<^verbatim>\<open>index.txt\<close> is appended to neither \<^verbatim>\<open>https://example.com/\<close> nor \<^verbatim>\<open>src/\<close>.
\<close>

theorem normalizeSourceFilePath_directory:
  "normalizeSourceFilePath ''https://example.com/'' = ''example.com/''
   \<and> normalizeSourceFilePath ''src/'' = ''src/''"
  by (simp add: normalizeSourceFilePath_def strip_protocols_def path_basename_def str_defs)


lemma path_basename_Nil_iff: "(path_basename s = []) = (\<forall>c\<in>set s. is_slash c)"
proof -
  let ?d = "dropWhile is_slash (rev s)"
  have t: "(takeWhile (\<lambda>c. \<not> is_slash c) ?d = []) = (?d = [])"
  proof (cases ?d)
    case Nil
    show ?thesis unfolding Nil by simp
  next
    case (Cons x xs)
    then have "\<not> is_slash x" by (metis hd_dropWhile list.sel(1) list.distinct(1))
    with Cons show ?thesis by simp
  qed
  have d: "(?d = []) = (\<forall>c\<in>set s. is_slash c)"
    by (simp add: dropWhile_eq_Nil_conv)
  have "(path_basename s = []) = (takeWhile (\<lambda>c. \<not> is_slash c) ?d = [])"
    by (simp add: path_basename_def)
  with t d show ?thesis by simp
qed

lemma strip_leading_slashes_hd:
  "strip_leading_slashes s \<noteq> [] \<Longrightarrow> \<not> is_slash (hd (strip_leading_slashes s))"
  unfolding strip_leading_slashes_def by (rule hd_dropWhile)

lemma strip_protocols_hd:
  "strip_protocols p \<noteq> [] \<Longrightarrow> \<not> is_slash (hd (strip_protocols p))"
  by (simp add: strip_protocols_def Let_def strip_leading_slashes_hd)

lemma path_join_index: "path_join ['''', ''index.txt''] = ''index.txt''"
  by (simp add: path_join_def path_normalize_def is_slash_def)

lemma normalizeSourceFilePath_eq:
  "normalizeSourceFilePath p =
     (if strip_protocols p = '''' then ''index.txt'' else strip_protocols p)"
proof (cases "strip_protocols p = ''''")
  case True
  then show ?thesis
    by (simp add: normalizeSourceFilePath_def path_basename_def path_join_index)
next
  case False
  then have "\<not> is_slash (hd (strip_protocols p))" by (rule strip_protocols_hd)
  moreover have "hd (strip_protocols p) \<in> set (strip_protocols p)" using False by simp
  ultimately have "path_basename (strip_protocols p) \<noteq> []"
    by (auto simp: path_basename_Nil_iff)
  with False show ?thesis by (simp add: normalizeSourceFilePath_def)
qed

lemma replace_prefix_le:
  "length r \<le> length p \<Longrightarrow> length (replace_prefix p r s) \<le> length s"
  using startsWith_length [of s p] by (auto simp: replace_prefix_def)

lemma replace_prefix_shorter:
  "startsWith s p \<Longrightarrow> length r < length p \<Longrightarrow> length (replace_prefix p r s) < length s"
  using startsWith_length [of s p] by (simp add: replace_prefix_def)

lemma strip_http_le: "length (strip_http s) \<le> length s"
  by (simp add: strip_http_def)

lemma strip_http_shorter: "is_http s \<Longrightarrow> length (strip_http s) < length s"
  using startsWith_length [of s "''https://''"] startsWith_length [of s "''http://''"]
  by (auto simp: strip_http_def is_http_def)

lemma length_strip_leading_slashes: "length (strip_leading_slashes s) \<le> length s"
  by (simp add: strip_leading_slashes_def length_dropWhile_le)

lemma replace_prefix_id: "\<not> startsWith s p \<Longrightarrow> replace_prefix p r s = s"
  by (simp add: replace_prefix_def)

lemma strip_protocols_shorter:
  assumes "startsWith q ''webpack://'' \<or> startsWith q ''rollup://'' \<or> startsWith q ''file://''
           \<or> startsWith q ''./'' \<or> is_http q"
  shows "length (strip_protocols q) < length q"
proof -
  define a where "a = replace_prefix ''webpack://'' ''webpack/'' q"
  define b where "b = replace_prefix ''rollup://'' ''rollup/'' a"
  define c where "c = replace_prefix ''file://'' ''file/'' b"
  define d where "d = replace_prefix ''./'' '''' c"
  define e where "e = (if is_http d then strip_http d else d)"
  have sp: "strip_protocols q = strip_leading_slashes e"
    by (simp add: strip_protocols_def Let_def a_def b_def c_def d_def e_def)
  have la: "length a \<le> length q" unfolding a_def by (rule replace_prefix_le) simp
  have lb: "length b \<le> length a" unfolding b_def by (rule replace_prefix_le) simp
  have lc: "length c \<le> length b" unfolding c_def by (rule replace_prefix_le) simp
  have ld: "length d \<le> length c" unfolding d_def by (rule replace_prefix_le) simp
  have le: "length e \<le> length d" by (simp add: e_def strip_http_le)
  have lf: "length (strip_leading_slashes e) \<le> length e"
    by (rule length_strip_leading_slashes)
  have strict: "length a < length q \<or> length b < length a \<or> length c < length b
                \<or> length d < length c \<or> length e < length d"
  proof (cases "startsWith q ''webpack://''")
    case True
    then have "length a < length q" unfolding a_def by (rule replace_prefix_shorter) simp
    then show ?thesis by blast
  next
    case nw: False
    then have aq: "a = q" by (simp add: a_def replace_prefix_id)
    show ?thesis
    proof (cases "startsWith q ''rollup://''")
      case True
      then have "length b < length a" unfolding b_def aq by (rule replace_prefix_shorter) simp
      then show ?thesis by blast
    next
      case nr: False
      then have bq: "b = q" using aq by (simp add: b_def replace_prefix_id)
      show ?thesis
      proof (cases "startsWith q ''file://''")
        case True
        then have "length c < length b" unfolding c_def bq by (rule replace_prefix_shorter) simp
        then show ?thesis by blast
      next
        case nf: False
        then have cq: "c = q" using bq by (simp add: c_def replace_prefix_id)
        show ?thesis
        proof (cases "startsWith q ''./''")
          case True
          then have "length d < length c" unfolding d_def cq by (rule replace_prefix_shorter) simp
          then show ?thesis by blast
        next
          case nd: False
          then have dq: "d = q" using cq by (simp add: d_def replace_prefix_id)
          from assms nw nr nf nd have h: "is_http q" by blast
          then have "length e < length d"
            using dq by (simp add: e_def strip_http_shorter)
          then show ?thesis by blast
        qed
      qed
    qed
  qed
  from la lb lc ld le lf strict show ?thesis unfolding sp by linarith
qed

lemma strip_protocols_id:
  assumes "already_normalized q"
  shows "strip_protocols q = q"
proof -
  have "strip_leading_slashes q = q"
  proof (cases q)
    case Nil
    then show ?thesis by (simp add: strip_leading_slashes_def)
  next
    case (Cons x xs)
    with assms have "\<not> is_slash x" by (simp add: already_normalized_def startsWith_def is_slash_def)
    with Cons show ?thesis by (simp add: strip_leading_slashes_def)
  qed
  with assms show ?thesis
    by (simp add: strip_protocols_def Let_def already_normalized_def replace_prefix_id)
qed

lemma normalizeSourceFilePath_no_slash:
  "\<not> startsWith (normalizeSourceFilePath p) ''/''"
proof (cases "strip_protocols p = ''''")
  case True
  then show ?thesis by (simp add: normalizeSourceFilePath_eq startsWith_def)
next
  case False
  then have "\<not> is_slash (hd (strip_protocols p))" by (rule strip_protocols_hd)
  with False show ?thesis
    by (cases "strip_protocols p") (auto simp: normalizeSourceFilePath_eq startsWith_def is_slash_def)
qed

lemma normalizeSourceFilePath_not_Nil: "normalizeSourceFilePath p \<noteq> ''''"
  by (simp add: normalizeSourceFilePath_eq)

text \<open>
  Normalization is not idempotent on every string: only one leading \<^verbatim>\<open>./\<close> is removed, so
  \<^verbatim>\<open>././a\<close> becomes \<^verbatim>\<open>./a\<close>, which a second application turns into \<^verbatim>\<open>a\<close>.
\<close>

theorem normalizeSourceFilePath_not_idempotent:
  "normalizeSourceFilePath (normalizeSourceFilePath ''././a'') \<noteq> normalizeSourceFilePath ''././a''"
  by (simp add: normalizeSourceFilePath_def strip_protocols_def path_basename_def str_defs)

text \<open>
  Claim C5, as amended. A non-empty path that is already normalized (no leading
  \<^verbatim>\<open>webpack://\<close>, \<^verbatim>\<open>rollup://\<close>, \<^verbatim>\<open>file://\<close>, \<^verbatim>\<open>http://\<close>, \<^verbatim>\<open>https://\<close>, \<^verbatim>\<open>./\<close> or slash) and
  does not end in a slash is a fixed point of \<open>normalizeSourceFilePath\<close>; and a second
  application leaves the output of the first unchanged exactly when that output is
  already normalized.
\<close>

theorem normalizeSourceFilePath_fixed_point:
  "(already_normalized p \<and> p \<noteq> '''' \<and> last p \<noteq> CHR ''/'' \<longrightarrow> normalizeSourceFilePath p = p)
   \<and> (normalizeSourceFilePath (normalizeSourceFilePath p) = normalizeSourceFilePath p)
       = already_normalized (normalizeSourceFilePath p)"
proof -
  have fixed: "normalizeSourceFilePath q = q" if "already_normalized q" "q \<noteq> ''''" for q
    using that by (simp add: normalizeSourceFilePath_eq strip_protocols_id)
  let ?q = "normalizeSourceFilePath p"
  have "normalizeSourceFilePath ?q \<noteq> ?q" if n: "\<not> already_normalized ?q"
  proof -
    from n normalizeSourceFilePath_no_slash [of p]
    have res: "startsWith ?q ''webpack://'' \<or> startsWith ?q ''rollup://''
               \<or> startsWith ?q ''file://'' \<or> startsWith ?q ''./'' \<or> is_http ?q"
      by (auto simp: already_normalized_def)
    then have lt: "length (strip_protocols ?q) < length ?q" by (rule strip_protocols_shorter)
    have "already_normalized ''index.txt''"
      by (simp add: already_normalized_def startsWith_def is_http_def)
    with n have ni: "?q \<noteq> ''index.txt''" by auto
    show ?thesis
    proof (cases "strip_protocols ?q = ''''")
      case True
      then have "normalizeSourceFilePath ?q = ''index.txt''"
        by (simp add: normalizeSourceFilePath_eq)
      with ni show ?thesis by simp
    next
      case False
      then have "normalizeSourceFilePath ?q = strip_protocols ?q"
        by (simp add: normalizeSourceFilePath_eq)
      with lt show ?thesis by auto
    qed
  qed
  moreover have "normalizeSourceFilePath ?q = ?q" if "already_normalized ?q"
    using that fixed [of ?q] normalizeSourceFilePath_not_Nil [of p] by simp
  ultimately show ?thesis using fixed [of p] by blast
qed

theorem normalizeSourceFilePath_fixed_point_witness:
  "already_normalized ''example.com/src/app.js''
   \<and> normalizeSourceFilePath ''example.com/src/app.js'' = ''example.com/src/app.js''
   \<and> normalizeSourceFilePath ''https://example.com/src/app.js'' = ''example.com/src/app.js''
   \<and> normalizeSourceFilePath (normalizeSourceFilePath ''https://example.com/src/app.js'')
       = normalizeSourceFilePath ''https://example.com/src/app.js''"
proof -
  have a: "already_normalized ''example.com/src/app.js''"
    by (simp add: already_normalized_def startsWith_def is_http_def)
  have n: "normalizeSourceFilePath ''https://example.com/src/app.js'' = ''example.com/src/app.js''"
    by (simp add: normalizeSourceFilePath_def strip_protocols_def path_basename_def str_defs)
  from a normalizeSourceFilePath_fixed_point [of "''example.com/src/app.js''"]
  have f: "normalizeSourceFilePath ''example.com/src/app.js'' = ''example.com/src/app.js''"
    by simp
  from a n f show ?thesis by simp
qed


section \<open>The sourcemap resolver\<close>

text \<open>
  The resolver tests the script URL with \<^verbatim>\<open>startsWith('http')\<close>. A script named
  \<^verbatim>\<open>http_bundle.js\<close> is no HTTP(S) URL, yet the reference is resolved against it; the
  resolution fails and \<^verbatim>\<open>null\<close> is returned, where the specification returns the
  reference unchanged.
\<close>

theorem resolveSourceMapUrl_http_prefix_only:
  "resolveSourceMapUrl (URL_resolve cdn_env) ''app.js.map'' ''http_bundle.js''
     \<noteq> resolve_spec (URL_resolve cdn_env) ''app.js.map'' ''http_bundle.js''"
  by (simp add: resolveSourceMapUrl_def resolve_spec_def looks_absolute_def cdn_env_def str_defs)

lemma is_http_startsWith_http:
  assumes "is_http s"
  shows "startsWith s ''http''"
proof -
  from assms obtain b where "s = ''http://'' @ b \<or> s = ''https://'' @ b"
    by (auto simp: is_http_def startsWith_iff)
  then have "s = ''http'' @ (''://'' @ b) \<or> s = ''http'' @ (''s://'' @ b)" by auto
  then show ?thesis unfolding startsWith_iff by blast
qed

text \<open>
  Claim C6, as amended. \<open>resolveSourceMapUrl\<close> returns the reference unchanged when it looks
  absolute; otherwise, exactly when the script URL starts with the characters \<^verbatim>\<open>http\<close>, it
  returns the reference resolved against the script URL, or \<^verbatim>\<open>null\<close> when the resolution
  fails; in every remaining case it returns the reference unchanged. Every \<^verbatim>\<open>http://\<close> and
  \<^verbatim>\<open>https://\<close> URL starts with \<^verbatim>\<open>http\<close>, and on those the resolver is the one of the
  specification.
\<close>

theorem resolveSourceMapUrl_cases:
  "(looks_absolute mapRef \<longrightarrow> resolveSourceMapUrl new_URL mapRef scriptUrl = Some mapRef)
   \<and> (\<not> looks_absolute mapRef \<and> startsWith scriptUrl ''http''
        \<longrightarrow> resolveSourceMapUrl new_URL mapRef scriptUrl = new_URL mapRef scriptUrl)
   \<and> (\<not> looks_absolute mapRef \<and> \<not> startsWith scriptUrl ''http''
        \<longrightarrow> resolveSourceMapUrl new_URL mapRef scriptUrl = Some mapRef)
   \<and> (is_http scriptUrl \<longrightarrow> startsWith scriptUrl ''http'')
   \<and> (is_http scriptUrl
        \<longrightarrow> resolveSourceMapUrl new_URL mapRef scriptUrl = resolve_spec new_URL mapRef scriptUrl)"
  using is_http_startsWith_http [of scriptUrl]
  by (auto simp: resolveSourceMapUrl_def resolve_spec_def)

theorem resolveSourceMapUrl_cases_witness:
  "looks_absolute ''DATA:application/json,{}''
   \<and> resolveSourceMapUrl (URL_resolve cdn_env) ''DATA:application/json,{}'' ''https://cdn.test/app.js''
       = Some ''DATA:application/json,{}''
   \<and> \<not> looks_absolute ''b.js'' \<and> is_http ''https://cdn.test/app.js.map''
   \<and> startsWith ''https://cdn.test/app.js.map'' ''http''
   \<and> resolveSourceMapUrl (URL_resolve cdn_env) ''b.js'' ''https://cdn.test/app.js.map''
       = Some ''https://cdn.test/b.js''
   \<and> \<not> startsWith ''file:///srv/app.js'' ''http''
   \<and> resolveSourceMapUrl (URL_resolve cdn_env) ''b.js'' ''file:///srv/app.js'' = Some ''b.js''"
proof -
  have a: "looks_absolute ''DATA:application/json,{}''"
    by (simp add: looks_absolute_def str_defs)
  have b: "\<not> looks_absolute ''b.js''"
    by (simp add: looks_absolute_def str_defs)
  have h: "is_http ''https://cdn.test/app.js.map''"
    by (simp add: str_defs)
  have f: "\<not> startsWith ''file:///srv/app.js'' ''http''"
    by (simp add: str_defs)
  have r: "URL_resolve cdn_env ''b.js'' ''https://cdn.test/app.js.map'' = Some ''https://cdn.test/b.js''"
    by (simp add: cdn_env_def)
  note c1 = resolveSourceMapUrl_cases
    [of "''DATA:application/json,{}''" "URL_resolve cdn_env" "''https://cdn.test/app.js''"]
  note c2 = resolveSourceMapUrl_cases
    [of "''b.js''" "URL_resolve cdn_env" "''https://cdn.test/app.js.map''"]
  note c3 = resolveSourceMapUrl_cases
    [of "''b.js''" "URL_resolve cdn_env" "''file:///srv/app.js''"]
  from a c1 have 1: "resolveSourceMapUrl (URL_resolve cdn_env) ''DATA:application/json,{}''
      ''https://cdn.test/app.js'' = Some ''DATA:application/json,{}''" by blast
  from h c2 have s: "startsWith ''https://cdn.test/app.js.map'' ''http''" by blast
  from b s c2 r have 2: "resolveSourceMapUrl (URL_resolve cdn_env) ''b.js''
      ''https://cdn.test/app.js.map'' = Some ''https://cdn.test/b.js''" by simp
  from b f c3 have 3: "resolveSourceMapUrl (URL_resolve cdn_env) ''b.js'' ''file:///srv/app.js''
      = Some ''b.js''" by blast
  from a b h f s 1 2 3 show ?thesis by blast
qed


section \<open>The extraction\<close>

lemma passesFilter_iff:
  "passesFilter filters p =
     (filters = [] \<or> (\<exists>f\<in>set filters. str_includes p f \<or> str_includes (''/'' @ p) f))"
  by (auto simp: passesFilter_def matchesFilter_def list_ex_iff)

lemma saveSource_written:
  "saveSource e filters src c st = Inr st' \<Longrightarrow> written st' \<noteq> written st
     \<Longrightarrow> \<exists>p. src = JStr p \<and> passesFilter filters (normalizeSourceFilePath p)"
  by (cases src) (auto simp: saveSource_def Let_def split: if_splits sum.splits)

lemma processSource_written:
  assumes "processSource e filters base source content st = Inr st'"
    and "written st' \<noteq> written st"
  shows "\<exists>p. or_else source (JStr '''') = JStr p
              \<and> passesFilter filters (normalizeSourceFilePath p)"
proof -
  let ?src = "or_else source (JStr '''')"
  obtain fc log where sel: "selectContent e base ?src content (fetched st) = Inr (fc, log)"
    using assms(1) by (auto simp: processSource_def Let_def split: sum.splits)
  show ?thesis
  proof (cases fc)
    case None
    with sel assms show ?thesis by (auto simp: processSource_def Let_def)
  next
    case (Some c)
    with sel assms(1) have "saveSource e filters ?src c (st\<lparr>fetched := log\<rparr>) = Inr st'"
      by (simp add: processSource_def Let_def)
    moreover have "written st' \<noteq> written (st\<lparr>fetched := log\<rparr>)" using assms(2) by simp
    ultimately show ?thesis by (rule saveSource_written)
  qed
qed

text \<open>
  Claim C9. With the filter list \<^verbatim>\<open>["/src/"]\<close> the path \<^verbatim>\<open>example.com/lib/util.js\<close> is
  excluded and \<^verbatim>\<open>example.com/src/util.js\<close> is included; the empty list keeps every path; a
  path passes a list exactly when the list is empty or one of its entries is a substring
  of the path or of the path prefixed with a slash; and a turn of the loop over the
  sources writes a file only if the normalized path passes.
\<close>

theorem filter_semantics:
  "\<not> passesFilter [''/src/''] ''example.com/lib/util.js''
   \<and> passesFilter [''/src/''] ''example.com/src/util.js''
   \<and> passesFilter [] p
   \<and> passesFilter filters p =
       (filters = [] \<or> (\<exists>f\<in>set filters. (\<exists>a b. p = a @ f @ b) \<or> (\<exists>a b. ''/'' @ p = a @ f @ b)))
   \<and> (processSource e filters base source content st = Inr st' \<and> written st' \<noteq> written st
        \<longrightarrow> (\<exists>q. or_else source (JStr '''') = JStr q
                 \<and> passesFilter filters (normalizeSourceFilePath q)))"
proof -
  have 1: "\<not> passesFilter [''/src/''] ''example.com/lib/util.js''"
    by (simp add: passesFilter_def matchesFilter_def startsWith_def)
  have 2: "passesFilter [''/src/''] ''example.com/src/util.js''"
    by (simp add: passesFilter_def matchesFilter_def startsWith_def)
  have 3: "passesFilter [] p"
    by (simp add: passesFilter_def matchesFilter_def)
  have 4: "passesFilter filters p =
       (filters = [] \<or> (\<exists>f\<in>set filters. (\<exists>a b. p = a @ f @ b) \<or> (\<exists>a b. ''/'' @ p = a @ f @ b)))"
    by (simp only: passesFilter_iff str_includes_iff)
  have 5: "processSource e filters base source content st = Inr st' \<and> written st' \<noteq> written st
        \<longrightarrow> (\<exists>q. or_else source (JStr '''') = JStr q
                 \<and> passesFilter filters (normalizeSourceFilePath q))"
    using processSource_written by blast
  from 1 2 3 4 5 show ?thesis by blast
qed

theorem filter_semantics_witness:
  "processSource cdn_env PATH_FILTERS None (Some (JStr ''https://example.com/src/util.js''))
     (Some (JStr ''let x'')) harvest0
     = Inr (harvest0\<lparr>written := [(''/home/user/out/example.com/src/util.js'', ''let x'')],
                      savedCount := 1\<rparr>)
   \<and> written (harvest0\<lparr>written := [(''/home/user/out/example.com/src/util.js'', ''let x'')],
                       savedCount := 1\<rparr>) \<noteq> written harvest0
   \<and> passesFilter PATH_FILTERS (normalizeSourceFilePath ''https://example.com/src/util.js'')"
proof -
  let ?st' = "harvest0\<lparr>written := [(''/home/user/out/example.com/src/util.js'', ''let x'')],
                       savedCount := 1\<rparr>"
  have run: "processSource cdn_env PATH_FILTERS None (Some (JStr ''https://example.com/src/util.js''))
     (Some (JStr ''let x'')) harvest0 = Inr ?st'"
    by (simp add: processSource_def saveSource_def or_else_def js_String_def passesFilter_def
        matchesFilter_def PATH_FILTERS_def OUTPUT_DIR_def normalizeSourceFilePath_def
        strip_protocols_def path_basename_def safePathJoin_def path_resolve_def sanitizePath_def
        cdn_env_def harvest0_def str_defs)
  have changed: "written ?st' \<noteq> written harvest0"
    by (simp add: harvest0_def)
  from run changed
    filter_semantics [where filters = PATH_FILTERS and e = cdn_env and base = None
      and source = "Some (JStr ''https://example.com/src/util.js'')" and content = "Some (JStr ''let x'')"
      and st = harvest0 and st' = ?st']
  have "\<exists>q. or_else (Some (JStr ''https://example.com/src/util.js'')) (JStr '''') = JStr q
            \<and> passesFilter PATH_FILTERS (normalizeSourceFilePath q)"
    by blast
  then have "passesFilter PATH_FILTERS (normalizeSourceFilePath ''https://example.com/src/util.js'')"
    by (simp add: or_else_def)
  with run changed show ?thesis by blast
qed















text \<open>
  The end-to-end scenario, with no filter: the first source is written from its embedded
  content under the marker \<^verbatim>\<open>_up_\<close>, the second is fetched, once, and written.
\<close>

lemma processSourceMap_scenario:
  "processSourceMap cdn_env [] ''https://cdn.test/app.js.map'' scenario_map harvest0
     = Some (Inr \<lparr>savedCount = 2, skippedNoMapRef = 0, skippedFetchFailed = 0,
                  skippedInvalid = 0, fetched = [''https://cdn.test/b.js''],
                  written = [(''/home/user/out/_up_/shared/a.js'', ''content-A''),
                             (''/home/user/out/b.js'', ''content-B'')]\<rparr>)"
  by code_simp

text \<open>
  A string or an object in the place of the array is indexed like one: the sources
  \<^verbatim>\<open>"ab"\<close> give two turns, for \<^verbatim>\<open>a\<close> and \<^verbatim>\<open>b\<close>, which resolve to nothing here, and the run
  completes with no file; an object with a \<^verbatim>\<open>length\<close> gives its indexed properties.
\<close>

lemma processSourceMap_string_sources:
  "processSourceMap cdn_env PATH_FILTERS ''https://cdn.test/app.js.map''
     (JObj [(''sources'', JStr ''ab'')]) harvest0 = Some (Inr harvest0)"
  by code_simp

lemma processSourceMap_object_sources:
  "processSourceMap cdn_env [] ''https://cdn.test/app.js.map''
     (JObj [(''sources'', JObj [(''length'', JNum 2), (''1'', JStr ''b.js'')])]) harvest0
     = Some (Inr (harvest0\<lparr>fetched := [''https://cdn.test/b.js''],
                           written := [(''/home/user/out/b.js'', ''content-B'')],
                           savedCount := 1\<rparr>))"
  by code_simp

text \<open>
  Claim C2. A sourcemap whose body is the JSON document \<^verbatim>\<open>null\<close> parses without error;
  reading \<^verbatim>\<open>sourceMap.sources\<close> then throws a \<^verbatim>\<open>TypeError\<close> outside every
  \<^verbatim>\<open>try\<close> block, and \<open>extractOriginalSources\<close> is rejected instead of returning a count.
\<close>

theorem extractOriginalSources_null_sourcemap:
  "extractOriginalSources cdn_env PATH_FILTERS [app_script] = Some (Inl TypeError)"
  by (simp add: extractOriginalSources_def processScript_def processSourceMap_def
      resolveSourceMapUrl_def looks_absolute_def cdn_env_def app_script_def harvest0_def str_defs)

end
